theory Spec2Isabelle
  imports Complex_Main "HOL-Library.AList" "HOL-Library.Word"
begin

section \<open>Data model\<close>

text \<open>
  The script \<^verbatim>\<open>homework3.py\<close> chains two pre-trained models and a display pass.
  Both models are black boxes: they are parameters of the functions below, and a call
  that fails is the \<open>Inl\<close> branch of its result, as the uncaught exception is in Python.
  A Python string is a \<open>string\<close>; the script compares strings for equality and
  joins them, nothing more.
\<close>

datatype error = ModelFailure string | KeyError string

text \<open>
  One element of the list the tagger returns. The script reads the two dictionary
  entries \<^verbatim>\<open>entity['entity_group']\<close> and \<^verbatim>\<open>entity['word']\<close> only; every other
  entry of the dictionary lives in the extension of the record, so a statement
  over \<open>'a span_scheme\<close> holds whatever else a span carries.
\<close>

record span =
  entity_group :: string
  word :: string

text \<open>
  The tagger configured with \<^verbatim>\<open>aggregation_strategy="simple"\<close> adds a confidence score
  and the character offsets of the span.
\<close>

record ner_span = span +
  score :: real
  span_start :: nat
  span_end :: nat

text \<open>
  The dictionary \<^verbatim>\<open>grouped_entities\<close>: keys in insertion order, each with its list of
  surface texts.
\<close>

type_synonym buckets = "(string \<times> string list) list"

section \<open>Entity extraction\<close>

text \<open>
  \<^verbatim>\<open>grouped_entities[key].append(w)\<close>: the list stored under \<open>key\<close> grows at its end,
  the key keeps its place. The script appends under the three keys of the literal of
  line 57 only, so the lookup never misses.
\<close>

definition bucket_append :: "string \<Rightarrow> string \<Rightarrow> buckets \<Rightarrow> buckets" where
  "bucket_append key w grouped_entities = AList.map_entry key (\<lambda>ws. ws @ [w]) grouped_entities"

text \<open>The body of the loop of lines 59 to 65: an \<^verbatim>\<open>if/elif/elif\<close> chain with no \<^verbatim>\<open>else\<close>.\<close>

definition group_step :: "'a span_scheme \<Rightarrow> buckets \<Rightarrow> buckets" where
  "group_step entity grouped_entities =
     (if entity_group entity = ''ORG'' then bucket_append ''ORGs'' (word entity) grouped_entities
      else if entity_group entity = ''LOC'' then bucket_append ''LOCs'' (word entity) grouped_entities
      else if entity_group entity = ''PER'' then bucket_append ''PERs'' (word entity) grouped_entities
      else grouped_entities)"

text \<open>
  Lines 68 and 69: for every key of the dictionary, the stored list is replaced by
  \<^verbatim>\<open>list(set(...))\<close> of itself. The order in which a Python set of strings is listed
  depends on the hash seed of the process, so the conversion is the parameter
  \<open>list_set\<close> of the model. The keys are read off the dictionary itself, and assigning
  to a key that is there keeps the key in its place.
\<close>

definition remove_duplicates :: "(string list \<Rightarrow> string list) \<Rightarrow> buckets \<Rightarrow> buckets" where
  "remove_duplicates list_set grouped_entities =
     fold (\<lambda>key d. AList.map_entry key list_set d) (map fst grouped_entities) grouped_entities"

text \<open>
  All that is known of \<^verbatim>\<open>list(set(xs))\<close>: it lists each member of \<open>xs\<close> once, in some
  order.
\<close>

definition is_list_of_set :: "(string list \<Rightarrow> string list) \<Rightarrow> bool" where
  "is_list_of_set list_set = (\<forall>xs. distinct (list_set xs) \<and> set (list_set xs) = set xs)"

text \<open>\<^verbatim>\<open>extract_entities(text, ner_pipeline)\<close>, lines 47 to 71.\<close>

definition extract_entities ::
  "(string list \<Rightarrow> string list) \<Rightarrow> string \<Rightarrow> (string \<Rightarrow> error + 'a span_scheme list)
     \<Rightarrow> error + buckets" where
  "extract_entities list_set text ner_pipeline =
     (case ner_pipeline text of
        Inl err \<Rightarrow> Inl err
      | Inr entities \<Rightarrow>
          Inr (remove_duplicates list_set
                 (fold group_step entities [(''ORGs'', []), (''LOCs'', []), (''PERs'', [])])))"

text \<open>The surface texts of the spans carrying one label, in the order of the spans.\<close>

definition words_labelled :: "string \<Rightarrow> 'a span_scheme list \<Rightarrow> string list" where
  "words_labelled l entities = map word (filter (\<lambda>e. entity_group e = l) entities)"

section \<open>Transcription\<close>

text \<open>
  The uploaded file is a byte stream with a read position. \<^verbatim>\<open>uploaded_file.read()\<close>
  returns the bytes from the position to the end and leaves the position at the end.
\<close>

type_synonym byte = "8 word"

record uploaded_file =
  content :: "byte list"
  position :: nat

definition file_read :: "uploaded_file \<Rightarrow> byte list \<times> uploaded_file" where
  "file_read f =
     (drop (position f) (content f), f\<lparr>position := max (position f) (length (content f))\<rparr>)"

text \<open>
  The dictionary the speech model returns. The script reads \<^verbatim>\<open>transcription['text']\<close>
  only; the entry \<^verbatim>\<open>'chunks'\<close>, which \<^verbatim>\<open>return_timestamps=True\<close> asks for, is in the
  extension of the record.
\<close>

record whisper_result =
  result_text :: string

record timestamped_result = whisper_result +
  chunks :: "((real \<times> real option) \<times> string) list"

text \<open>
  \<^verbatim>\<open>transcribe_audio(uploaded_file)\<close>, lines 30 to 41. The parameter \<open>whisper_model\<close> is
  the pipeline that \<^verbatim>\<open>load_whisper_model()\<close> returns; its second argument is the flag
  \<^verbatim>\<open>return_timestamps\<close>. The file is returned with its new read position.
\<close>

definition transcribe_audio ::
  "(byte list \<Rightarrow> bool \<Rightarrow> error + 'a whisper_result_scheme) \<Rightarrow> uploaded_file
     \<Rightarrow> (error + string) \<times> uploaded_file" where
  "transcribe_audio whisper_model uploaded_file =
     (case file_read uploaded_file of
        (audio, uploaded_file') \<Rightarrow>
          (case whisper_model audio True of
             Inl err \<Rightarrow> (Inl err, uploaded_file')
           | Inr transcription \<Rightarrow> (Inr (result_text transcription), uploaded_file')))"

section \<open>Presentation\<close>

text \<open>
  The page is the list of the elements sent to it so far; \<^verbatim>\<open>st.subheader\<close> and
  \<^verbatim>\<open>st.write\<close> add one element at its end.
\<close>

datatype element = Subheader string | Write string

definition st_subheader :: "string \<Rightarrow> element list \<Rightarrow> element list" where
  "st_subheader s page = page @ [Subheader s]"

definition st_write :: "string \<Rightarrow> element list \<Rightarrow> element list" where
  "st_write s page = page @ [Write s]"

text \<open>\<^verbatim>\<open>entities[key]\<close>: a key that is not in the dictionary raises.\<close>

definition bucket_get :: "buckets \<Rightarrow> string \<Rightarrow> error + string list" where
  "bucket_get entities key =
     (case map_of entities key of None \<Rightarrow> Inl (KeyError key) | Some ws \<Rightarrow> Inr ws)"

text \<open>
  The display pass of \<^verbatim>\<open>main\<close>: lines 97 and 98, then lines 103 to 121, on the
  transcript and on the dictionary that line 101 computes in between. The result is the
  page and the exception that ended the pass, if one did. A Python list is true in an
  \<^verbatim>\<open>if\<close> when it is not empty.
\<close>

definition main_render ::
  "string \<Rightarrow> buckets \<Rightarrow> element list \<Rightarrow> element list \<times> error option" where
  "main_render transcript entities page =
     (let page1 = st_write transcript (st_subheader ''Transcription:'' page);
          page2 = st_subheader ''Extracted Entities:'' page1
      in case bucket_get entities ''ORGs'' of
           Inl err \<Rightarrow> (page2, Some err)
         | Inr orgs \<Rightarrow>
      let page3 =
            (if orgs \<noteq> []
             then fold (\<lambda>org. st_write (''- '' @ org)) orgs
                    (st_write ''**Organizations (ORGs):**'' page2)
             else st_write ''No organizations found.'' page2)
      in case bucket_get entities ''LOCs'' of
           Inl err \<Rightarrow> (page3, Some err)
         | Inr locs \<Rightarrow>
      let page4 =
            (if locs \<noteq> []
             then fold (\<lambda>loc. st_write (''- '' @ loc)) locs
                    (st_write ''**Locations (LOCs):**'' page3)
             else st_write ''No locations found.'' page3)
      in case bucket_get entities ''PERs'' of
           Inl err \<Rightarrow> (page4, Some err)
         | Inr pers \<Rightarrow>
      let page5 =
            (if pers \<noteq> []
             then fold (\<lambda>per. st_write (''- '' @ per)) pers
                    (st_write ''**Persons (PERs):**'' page4)
             else st_write ''No persons found.'' page4)
      in (page5, None))"

text \<open>
  The display of one category as the specification words it: a labelled bulleted list of
  the values of the bucket, or the fixed placeholder when the bucket is empty.
\<close>

definition spec_category :: "string \<Rightarrow> string \<Rightarrow> string list \<Rightarrow> element list" where
  "spec_category label placeholder bucket =
     (if bucket = [] then [Write placeholder]
      else Write label # map (\<lambda>w. Write (''- '' @ w)) bucket)"

section \<open>Example data\<close>

text \<open>
  The span sequence of the specification's example, with scores and offsets as the
  tagger would add them, and the same spans carrying their label and text only; a
  tagger and a speech model for each, and an uploaded file of four bytes.
\<close>

definition example_spans :: "ner_span list" where
  "example_spans =
     [\<lparr>entity_group = ''ORG'', word = ''Acme'', score = 99 / 100, span_start = 0, span_end = 4\<rparr>,
      \<lparr>entity_group = ''ORG'', word = ''Acme'', score = 97 / 100, span_start = 20, span_end = 24\<rparr>,
      \<lparr>entity_group = ''PER'', word = ''Jane'', score = 98 / 100, span_start = 30, span_end = 34\<rparr>,
      \<lparr>entity_group = ''MISC'', word = ''Monday'', score = 1 / 2, span_start = 38, span_end = 44\<rparr>]"

definition example_spans' :: "span list" where
  "example_spans' =
     [\<lparr>entity_group = ''ORG'', word = ''Acme''\<rparr>,
      \<lparr>entity_group = ''ORG'', word = ''Acme''\<rparr>,
      \<lparr>entity_group = ''PER'', word = ''Jane''\<rparr>,
      \<lparr>entity_group = ''MISC'', word = ''Monday''\<rparr>]"

definition example_text :: string where
  "example_text = ''Acme and Acme hired Jane on Monday''"

definition example_ner :: "string \<Rightarrow> error + ner_span list" where
  "example_ner text =
     (if text = example_text then Inr example_spans
      else if text = [] then Inr []
      else Inl (ModelFailure ''not in the example''))"

definition example_ner' :: "string \<Rightarrow> error + span list" where
  "example_ner' text = Inr example_spans'"

definition example_whisper :: "byte list \<Rightarrow> bool \<Rightarrow> error + timestamped_result" where
  "example_whisper audio return_timestamps =
     (if audio = [] then Inl (ModelFailure ''no audio'')
      else Inr \<lparr>result_text = example_text,
                chunks = (if return_timestamps then [((0, Some 3), example_text)] else [])\<rparr>)"

definition example_whisper' :: "byte list \<Rightarrow> bool \<Rightarrow> error + whisper_result" where
  "example_whisper' audio return_timestamps = Inr \<lparr>result_text = example_text\<rparr>"

definition example_file :: uploaded_file where
  "example_file = \<lparr>content = [82, 73, 70, 70], position = 0\<rparr>"

section \<open>What the two loops compute\<close>

lemma words_labelled_Cons:
  "words_labelled l (e # es) =
     (if entity_group e = l then word e # words_labelled l es else words_labelled l es)"
  by (simp add: words_labelled_def)

lemma group_step_three:
  "group_step e [(''ORGs'', a), (''LOCs'', b), (''PERs'', c)] =
     [(''ORGs'', a @ words_labelled ''ORG'' [e]),
      (''LOCs'', b @ words_labelled ''LOC'' [e]),
      (''PERs'', c @ words_labelled ''PER'' [e])]"
  by (simp add: group_step_def bucket_append_def words_labelled_def)

lemma fold_group_step:
  "fold group_step entities [(''ORGs'', a), (''LOCs'', b), (''PERs'', c)] =
     [(''ORGs'', a @ words_labelled ''ORG'' entities),
      (''LOCs'', b @ words_labelled ''LOC'' entities),
      (''PERs'', c @ words_labelled ''PER'' entities)]"
proof (induction entities arbitrary: a b c)
  case Nil
  show ?case by (simp add: words_labelled_def)
next
  case (Cons e es)
  have "fold group_step (e # es) [(''ORGs'', a), (''LOCs'', b), (''PERs'', c)] =
        fold group_step es (group_step e [(''ORGs'', a), (''LOCs'', b), (''PERs'', c)])"
    by simp
  also have "\<dots> =
     [(''ORGs'', (a @ words_labelled ''ORG'' [e]) @ words_labelled ''ORG'' es),
      (''LOCs'', (b @ words_labelled ''LOC'' [e]) @ words_labelled ''LOC'' es),
      (''PERs'', (c @ words_labelled ''PER'' [e]) @ words_labelled ''PER'' es)]"
    by (simp only: group_step_three Cons.IH)
  also have "\<dots> =
     [(''ORGs'', a @ words_labelled ''ORG'' (e # es)),
      (''LOCs'', b @ words_labelled ''LOC'' (e # es)),
      (''PERs'', c @ words_labelled ''PER'' (e # es))]"
    by (simp add: words_labelled_def)
  finally show ?case .
qed

lemma remove_duplicates_three:
  "remove_duplicates list_set [(''ORGs'', a), (''LOCs'', b), (''PERs'', c)] =
     [(''ORGs'', list_set a), (''LOCs'', list_set b), (''PERs'', list_set c)]"
  by (simp add: remove_duplicates_def)

lemma extract_entities_eq:
  assumes "ner_pipeline text = Inr entities"
  shows "extract_entities list_set text ner_pipeline =
     Inr [(''ORGs'', list_set (words_labelled ''ORG'' entities)),
          (''LOCs'', list_set (words_labelled ''LOC'' entities)),
          (''PERs'', list_set (words_labelled ''PER'' entities))]"
  using assms
  by (simp add: extract_entities_def fold_group_step [of entities "[]" "[]" "[]", simplified]
      remove_duplicates_three)

lemma list_of_set_empty: "is_list_of_set f \<Longrightarrow> f [] = []"
proof -
  assume "is_list_of_set f"
  then have "set (f []) = set []"
    unfolding is_list_of_set_def by blast
  then show ?thesis by simp
qed

lemma distinct_singleton_set: "distinct ys \<Longrightarrow> set ys = {a} \<Longrightarrow> ys = [a]"
proof (cases ys)
  case Nil
  assume "set ys = {a}"
  with Nil show ?thesis by simp
next
  case (Cons y zs)
  assume d: "distinct ys" and s: "set ys = {a}"
  from s Cons have "y = a" by auto
  moreover from d s Cons \<open>y = a\<close> have "set zs \<subseteq> {a}" "a \<notin> set zs" by auto
  then have "zs = []" by (cases zs) auto
  ultimately show ?thesis using Cons by simp
qed

lemma list_of_set_single: "is_list_of_set f \<Longrightarrow> set xs = {a} \<Longrightarrow> f xs = [a]"
  by (simp add: is_list_of_set_def distinct_singleton_set)

lemma set_words_labelled:
  "set (words_labelled l es) = {word e | e. e \<in> set es \<and> entity_group e = l}"
  by (auto simp: words_labelled_def)

lemma fold_st_write:
  "fold (\<lambda>w. st_write (g w)) ws page = page @ map (\<lambda>w. Write (g w)) ws"
  by (induction ws arbitrary: page) (simp_all add: st_write_def)

lemma category_pass:
  "(if ws \<noteq> [] then fold (\<lambda>w. st_write (''- '' @ w)) ws (st_write label page)
    else st_write placeholder page) = page @ spec_category label placeholder ws"
  by (simp add: fold_st_write spec_category_def st_write_def)

lemma words_labelled_agree:
  fixes es :: "'a span_scheme list" and es' :: "'b span_scheme list"
  assumes "length es = length es'"
    and "\<forall>i<length es. entity_group (es ! i) = entity_group (es' ! i) \<and> word (es ! i) = word (es' ! i)"
  shows "words_labelled l es = words_labelled l es'"
  using assms
proof (induction es es' rule: list_induct2)
  case Nil
  show ?case by (simp add: words_labelled_def)
next
  case (Cons e es e' es')
  from Cons.prems have hd: "entity_group e = entity_group e'" "word e = word e'"
    by auto
  from Cons.prems have "\<forall>i<length es. entity_group (es ! i) = entity_group (es' ! i) \<and>
      word (es ! i) = word (es' ! i)"
    by fastforce
  then have "words_labelled l es = words_labelled l es'"
    by (rule Cons.IH)
  with hd show ?case
    by (simp add: words_labelled_Cons)
qed

section \<open>The grouping step\<close>

text \<open>
  Claim C1 (soundness of grouping). Whatever spans the tagger returns, and in whatever
  order a set is listed, every surface text in the bucket \<open>ORGs\<close> of the result is the
  word of some input span labelled \<open>ORG\<close>; likewise \<open>LOCs\<close> with \<open>LOC\<close> and \<open>PERs\<close>
  with \<open>PER\<close>.
\<close>

theorem extract_entities_sound:
  assumes "is_list_of_set list_set" and "ner_pipeline text = Inr entities"
  shows "\<exists>orgs locs pers.
           extract_entities list_set text ner_pipeline =
             Inr [(''ORGs'', orgs), (''LOCs'', locs), (''PERs'', pers)] \<and>
           (\<forall>w\<in>set orgs. \<exists>e\<in>set entities. entity_group e = ''ORG'' \<and> word e = w) \<and>
           (\<forall>w\<in>set locs. \<exists>e\<in>set entities. entity_group e = ''LOC'' \<and> word e = w) \<and>
           (\<forall>w\<in>set pers. \<exists>e\<in>set entities. entity_group e = ''PER'' \<and> word e = w)"
proof -
  have sets: "set (list_set (words_labelled l entities)) = set (words_labelled l entities)" for l
    using assms(1) by (simp add: is_list_of_set_def)
  have "\<forall>w\<in>set (list_set (words_labelled l entities)).
          \<exists>e\<in>set entities. entity_group e = l \<and> word e = w" for l
    unfolding sets set_words_labelled by blast
  then show ?thesis
    unfolding extract_entities_eq [of ner_pipeline "text" entities, OF assms(2)] by blast
qed

theorem extract_entities_sound_witness:
  "is_list_of_set remdups \<and>
   example_ner example_text = Inr example_spans \<and>
   (\<exists>orgs locs pers.
      extract_entities remdups example_text example_ner =
        Inr [(''ORGs'', orgs), (''LOCs'', locs), (''PERs'', pers)] \<and>
      (\<forall>w\<in>set orgs. \<exists>e\<in>set example_spans. entity_group e = ''ORG'' \<and> word e = w) \<and>
      (\<forall>w\<in>set locs. \<exists>e\<in>set example_spans. entity_group e = ''LOC'' \<and> word e = w) \<and>
      (\<forall>w\<in>set pers. \<exists>e\<in>set example_spans. entity_group e = ''PER'' \<and> word e = w))"
proof -
  have h1: "is_list_of_set remdups"
    by (simp add: is_list_of_set_def)
  have h2: "example_ner example_text = Inr example_spans"
    by (simp add: example_ner_def)
  from h1 h2 extract_entities_sound [of remdups example_ner example_text example_spans, OF h1 h2]
  show ?thesis by simp
qed


text \<open>
  Claim C2 (completeness of grouping). Every span whose label is exactly \<open>ORG\<close>,
  \<open>LOC\<close> or \<open>PER\<close> has its surface text in the bucket \<open>ORGs\<close>, \<open>LOCs\<close> or \<open>PERs\<close>
  of the result.
\<close>

theorem extract_entities_complete:
  assumes "is_list_of_set list_set" and "ner_pipeline text = Inr entities"
  shows "\<exists>orgs locs pers.
           extract_entities list_set text ner_pipeline =
             Inr [(''ORGs'', orgs), (''LOCs'', locs), (''PERs'', pers)] \<and>
           (\<forall>e\<in>set entities.
              (entity_group e = ''ORG'' \<longrightarrow> word e \<in> set orgs) \<and>
              (entity_group e = ''LOC'' \<longrightarrow> word e \<in> set locs) \<and>
              (entity_group e = ''PER'' \<longrightarrow> word e \<in> set pers))"
proof -
  have sets: "set (list_set (words_labelled l entities)) = set (words_labelled l entities)" for l
    using assms(1) by (simp add: is_list_of_set_def)
  have "\<forall>e\<in>set entities.
          entity_group e = l \<longrightarrow> word e \<in> set (list_set (words_labelled l entities))" for l
    unfolding sets set_words_labelled by blast
  then show ?thesis
    unfolding extract_entities_eq [of ner_pipeline "text" entities, OF assms(2)] by blast
qed

theorem extract_entities_complete_witness:
  "is_list_of_set remdups \<and>
   example_ner example_text = Inr example_spans \<and>
   (\<exists>orgs locs pers.
      extract_entities remdups example_text example_ner =
        Inr [(''ORGs'', orgs), (''LOCs'', locs), (''PERs'', pers)] \<and>
      ''Acme'' \<in> set orgs \<and> ''Jane'' \<in> set pers)"
proof -
  have h1: "is_list_of_set remdups"
    by (simp add: is_list_of_set_def)
  have h2: "example_ner example_text = Inr example_spans"
    by (simp add: example_ner_def)
  from extract_entities_complete [of remdups example_ner example_text example_spans, OF h1 h2]
  obtain orgs locs pers where
    run: "extract_entities remdups example_text example_ner =
            Inr [(''ORGs'', orgs), (''LOCs'', locs), (''PERs'', pers)]" and
    all: "\<forall>e\<in>set example_spans.
              (entity_group e = ''ORG'' \<longrightarrow> word e \<in> set orgs) \<and>
              (entity_group e = ''LOC'' \<longrightarrow> word e \<in> set locs) \<and>
              (entity_group e = ''PER'' \<longrightarrow> word e \<in> set pers)"
    by blast
  from all have "''Acme'' \<in> set orgs" "''Jane'' \<in> set pers"
    by (simp_all add: example_spans_def)
  with h1 h2 run show ?thesis by blast
qed

text \<open>
  Claim C3. A span whose label is none of \<open>ORG\<close>, \<open>LOC\<close>, \<open>PER\<close> (a \<open>MISC\<close> span, a
  date) contributes to no bucket: the result is the one obtained from the sequence
  without that span.
\<close>

theorem unrecognised_span_dropped:
  assumes "entity_group e \<notin> {''ORG'', ''LOC'', ''PER''}"
    and "ner_pipeline text = Inr (before @ e # after)"
    and "ner_pipeline' text' = Inr (before @ after)"
  shows "extract_entities list_set text ner_pipeline =
         extract_entities list_set text' ner_pipeline'"
proof -
  have "words_labelled l (before @ e # after) = words_labelled l (before @ after)"
    if "l \<in> {''ORG'', ''LOC'', ''PER''}" for l
    using that assms(1) by (auto simp: words_labelled_def)
  then show ?thesis
    unfolding extract_entities_eq [of ner_pipeline "text" "before @ e # after", OF assms(2)]
      extract_entities_eq [of ner_pipeline' text' "before @ after", OF assms(3)]
    by simp
qed

theorem unrecognised_span_dropped_witness:
  "''MISC'' \<notin> {''ORG'', ''LOC'', ''PER''} \<and>
   example_ner example_text = Inr example_spans \<and>
   extract_entities remdups example_text example_ner =
   extract_entities remdups example_text (\<lambda>_. Inr (butlast example_spans))"
proof -
  let ?e = "\<lparr>entity_group = ''MISC'', word = ''Monday'', score = 1 / 2,
             span_start = 38, span_end = 44\<rparr>"
  have h1: "entity_group ?e \<notin> {''ORG'', ''LOC'', ''PER''}"
    by simp
  have h2: "example_ner example_text = Inr (butlast example_spans @ ?e # [])"
    by (simp add: example_ner_def example_spans_def)
  have h3: "(\<lambda>_. Inr (butlast example_spans)) example_text =
            (Inr (butlast example_spans @ []) :: error + ner_span list)"
    by simp
  have "extract_entities remdups example_text example_ner =
        extract_entities remdups example_text (\<lambda>_. Inr (butlast example_spans))"
    by (rule unrecognised_span_dropped [of ?e example_ner example_text "butlast example_spans" "[]"
          "\<lambda>_. Inr (butlast example_spans)" example_text remdups, OF h1 h2 h3])
  moreover have "example_ner example_text = Inr example_spans"
    by (simp add: example_ner_def)
  ultimately show ?thesis by simp
qed


text \<open>
  Claim C4. After the deduplication pass no bucket of the result holds the same surface
  text twice.
\<close>

theorem buckets_distinct:
  assumes "is_list_of_set list_set" and "ner_pipeline text = Inr entities"
  shows "\<exists>orgs locs pers.
           extract_entities list_set text ner_pipeline =
             Inr [(''ORGs'', orgs), (''LOCs'', locs), (''PERs'', pers)] \<and>
           distinct orgs \<and> distinct locs \<and> distinct pers"
proof -
  have "distinct (list_set ws)" for ws
    using assms(1) by (simp add: is_list_of_set_def)
  then show ?thesis
    unfolding extract_entities_eq [of ner_pipeline "text" entities, OF assms(2)] by blast
qed

theorem buckets_distinct_witness:
  "is_list_of_set remdups \<and>
   example_ner example_text = Inr example_spans \<and>
   (\<exists>orgs locs pers.
      extract_entities remdups example_text example_ner =
        Inr [(''ORGs'', orgs), (''LOCs'', locs), (''PERs'', pers)] \<and>
      distinct orgs \<and> distinct locs \<and> distinct pers)"
proof -
  have h1: "is_list_of_set remdups"
    by (simp add: is_list_of_set_def)
  have h2: "example_ner example_text = Inr example_spans"
    by (simp add: example_ner_def)
  from h1 h2 buckets_distinct [of remdups example_ner example_text example_spans, OF h1 h2]
  show ?thesis by simp
qed

text \<open>
  Claim C5. The result has exactly the three keys \<open>ORGs\<close>, \<open>LOCs\<close> and \<open>PERs\<close>, each
  once: none is missing and there is no other key.
\<close>

theorem buckets_keys:
  assumes "ner_pipeline text = Inr entities"
  shows "\<exists>d. extract_entities list_set text ner_pipeline = Inr d \<and>
           map fst d = [''ORGs'', ''LOCs'', ''PERs''] \<and>
           dom (map_of d) = {''ORGs'', ''LOCs'', ''PERs''}"
  unfolding extract_entities_eq [of ner_pipeline "text" entities, OF assms]
  by auto

theorem buckets_keys_witness:
  "example_ner example_text = Inr example_spans \<and>
   (\<exists>d. extract_entities remdups example_text example_ner = Inr d \<and>
      map fst d = [''ORGs'', ''LOCs'', ''PERs''] \<and>
      dom (map_of d) = {''ORGs'', ''LOCs'', ''PERs''})"
proof -
  have h: "example_ner example_text = Inr example_spans"
    by (simp add: example_ner_def)
  from h buckets_keys [of example_ner example_text example_spans remdups, OF h]
  show ?thesis by simp
qed

text \<open>
  Claim C6. Two runs of the grouping step on the same span sequence give the same
  bucket sets, even when the two runs list their sets in different orders.
\<close>

theorem grouping_repeatable:
  assumes "is_list_of_set list_set" and "is_list_of_set list_set'"
    and "ner_pipeline text = Inr entities"
  shows "\<exists>orgs locs pers orgs' locs' pers'.
           extract_entities list_set text ner_pipeline =
             Inr [(''ORGs'', orgs), (''LOCs'', locs), (''PERs'', pers)] \<and>
           extract_entities list_set' text ner_pipeline =
             Inr [(''ORGs'', orgs'), (''LOCs'', locs'), (''PERs'', pers')] \<and>
           set orgs = set orgs' \<and> set locs = set locs' \<and> set pers = set pers'"
proof -
  have "set (list_set ws) = set (list_set' ws)" for ws
    using assms(1,2) by (simp add: is_list_of_set_def)
  then show ?thesis
    unfolding extract_entities_eq [of ner_pipeline "text" entities, OF assms(3)] by blast
qed

theorem grouping_repeatable_witness:
  "is_list_of_set remdups \<and> is_list_of_set (rev \<circ> remdups) \<and>
   example_ner example_text = Inr example_spans \<and>
   (\<exists>orgs locs pers orgs' locs' pers'.
      extract_entities remdups example_text example_ner =
        Inr [(''ORGs'', orgs), (''LOCs'', locs), (''PERs'', pers)] \<and>
      extract_entities (rev \<circ> remdups) example_text example_ner =
        Inr [(''ORGs'', orgs'), (''LOCs'', locs'), (''PERs'', pers')] \<and>
      set orgs = set orgs' \<and> set locs = set locs' \<and> set pers = set pers')"
proof -
  have h1: "is_list_of_set remdups"
    by (simp add: is_list_of_set_def)
  have h2: "is_list_of_set (rev \<circ> remdups)"
    by (simp add: is_list_of_set_def)
  have h3: "example_ner example_text = Inr example_spans"
    by (simp add: example_ner_def)
  from h1 h2 h3
    grouping_repeatable [of remdups "rev \<circ> remdups" example_ner example_text example_spans,
      OF h1 h2 h3]
  show ?thesis by simp
qed

text \<open>
  Claim C7. On the spans \<open>ORG Acme\<close>, \<open>ORG Acme\<close>, \<open>PER Jane\<close>, \<open>MISC Monday\<close>, whatever
  else each span carries, the buckets are \<open>ORGs: Acme\<close>, \<open>LOCs:\<close> nothing, \<open>PERs: Jane\<close>.
  Each bucket has at most one member here, so the result is the same in every listing
  order.
\<close>

theorem example_buckets:
  assumes "is_list_of_set list_set"
  shows "extract_entities list_set text
           (\<lambda>_. Inr [\<lparr>entity_group = ''ORG'', word = ''Acme'', \<dots> = x1\<rparr>,
                      \<lparr>entity_group = ''ORG'', word = ''Acme'', \<dots> = x2\<rparr>,
                      \<lparr>entity_group = ''PER'', word = ''Jane'', \<dots> = x3\<rparr>,
                      \<lparr>entity_group = ''MISC'', word = ''Monday'', \<dots> = x4\<rparr>]) =
         Inr [(''ORGs'', [''Acme'']), (''LOCs'', []), (''PERs'', [''Jane''])]"
proof -
  let ?spans = "[\<lparr>entity_group = ''ORG'', word = ''Acme'', \<dots> = x1\<rparr>,
                 \<lparr>entity_group = ''ORG'', word = ''Acme'', \<dots> = x2\<rparr>,
                 \<lparr>entity_group = ''PER'', word = ''Jane'', \<dots> = x3\<rparr>,
                 \<lparr>entity_group = ''MISC'', word = ''Monday'', \<dots> = x4\<rparr>]"
  have w: "words_labelled ''ORG'' ?spans = [''Acme'', ''Acme'']"
    "words_labelled ''LOC'' ?spans = []"
    "words_labelled ''PER'' ?spans = [''Jane'']"
    by (simp_all add: words_labelled_def)
  have "list_set [''Acme'', ''Acme''] = [''Acme'']"
    by (rule list_of_set_single [OF assms]) simp
  moreover have "list_set [''Jane''] = [''Jane'']"
    by (rule list_of_set_single [OF assms]) simp
  moreover have "list_set [] = []"
    by (rule list_of_set_empty [OF assms])
  ultimately show ?thesis
    by (simp add: extract_entities_eq [of "\<lambda>_. Inr ?spans" "text" ?spans] w)
qed

theorem example_buckets_witness:
  "is_list_of_set (rev \<circ> remdups) \<and>
   extract_entities (rev \<circ> remdups) example_text (\<lambda>_. Inr example_spans') =
     Inr [(''ORGs'', [''Acme'']), (''LOCs'', []), (''PERs'', [''Jane''])]"
proof -
  have h: "is_list_of_set (rev \<circ> remdups)"
    by (simp add: is_list_of_set_def)
  from h example_buckets [of "rev \<circ> remdups" example_text "()" "()" "()" "()", OF h]
  show ?thesis by (simp add: example_spans'_def)
qed

text \<open>
  Claim C10. The result reads the label and the surface text of each span and nothing
  else: two span sequences of the same length that agree, position by position, on
  \<open>entity_group\<close> and \<open>word\<close> give the same result under one listing order, and equal
  bucket sets under any two, whatever else the spans of either sequence carry (the two
  extension types are independent).
\<close>

theorem extract_entities_two_fields:
  fixes entities :: "'a span_scheme list" and entities' :: "'b span_scheme list"
  assumes "is_list_of_set list_set" and "is_list_of_set list_set'"
    and "ner_pipeline text = Inr entities" and "ner_pipeline' text' = Inr entities'"
    and "length entities = length entities'"
    and "\<forall>i<length entities.
           entity_group (entities ! i) = entity_group (entities' ! i) \<and>
           word (entities ! i) = word (entities' ! i)"
  shows "extract_entities list_set text ner_pipeline =
           extract_entities list_set text' ner_pipeline' \<and>
         (\<exists>orgs locs pers orgs' locs' pers'.
            extract_entities list_set text ner_pipeline =
              Inr [(''ORGs'', orgs), (''LOCs'', locs), (''PERs'', pers)] \<and>
            extract_entities list_set' text' ner_pipeline' =
              Inr [(''ORGs'', orgs'), (''LOCs'', locs'), (''PERs'', pers')] \<and>
            set orgs = set orgs' \<and> set locs = set locs' \<and> set pers = set pers')"
proof -
  have same: "words_labelled l entities = words_labelled l entities'" for l
    by (rule words_labelled_agree [OF assms(5,6)])
  have "set (list_set ws) = set (list_set' ws)" for ws
    using assms(1,2) by (simp add: is_list_of_set_def)
  then show ?thesis
    unfolding extract_entities_eq [of ner_pipeline "text" entities, OF assms(3)]
      extract_entities_eq [of ner_pipeline' text' entities', OF assms(4)] same
    by blast
qed

theorem extract_entities_two_fields_witness:
  "is_list_of_set remdups \<and> is_list_of_set (rev \<circ> remdups) \<and>
   example_ner example_text = Inr example_spans \<and> example_ner' [] = Inr example_spans' \<and>
   length example_spans = length example_spans' \<and>
   extract_entities remdups example_text example_ner = extract_entities remdups [] example_ner' \<and>
   (\<exists>orgs locs pers orgs' locs' pers'.
      extract_entities remdups example_text example_ner =
        Inr [(''ORGs'', orgs), (''LOCs'', locs), (''PERs'', pers)] \<and>
      extract_entities (rev \<circ> remdups) [] example_ner' =
        Inr [(''ORGs'', orgs'), (''LOCs'', locs'), (''PERs'', pers')] \<and>
      set orgs = set orgs' \<and> set locs = set locs' \<and> set pers = set pers')"
proof -
  have h1: "is_list_of_set remdups"
    by (simp add: is_list_of_set_def)
  have h2: "is_list_of_set (rev \<circ> remdups)"
    by (simp add: is_list_of_set_def)
  have h3: "example_ner example_text = Inr example_spans"
    by (simp add: example_ner_def)
  have h4: "example_ner' [] = Inr example_spans'"
    by (simp add: example_ner'_def)
  have h5: "length example_spans = length example_spans'"
    by (simp add: example_spans_def example_spans'_def)
  have h6: "\<forall>i<length example_spans.
      entity_group (example_spans ! i) = entity_group (example_spans' ! i) \<and>
      word (example_spans ! i) = word (example_spans' ! i)"
    by (simp add: example_spans_def example_spans'_def less_Suc_eq)
  from h1 h2 h3 h4 h5
    extract_entities_two_fields [of remdups "rev \<circ> remdups" example_ner example_text example_spans
      example_ner' "[]" example_spans', OF h1 h2 h3 h4 h5 h6]
  show ?thesis by blast
qed

section \<open>The display pass\<close>

text \<open>
  Claim C8. For a dictionary with the three buckets, the display pass ends without an
  exception and adds to the page, in this order: the transcript under its heading, the
  heading of the entities, and one block for each of organizations, locations and
  persons. A block is the labelled bulleted list of the values of its bucket when the
  bucket is not empty, and the placeholder of its category when the bucket is empty,
  never both and never neither. The transcript is written in every case.
\<close>

theorem main_render_categories:
  assumes "map_of entities ''ORGs'' = Some orgs"
    and "map_of entities ''LOCs'' = Some locs"
    and "map_of entities ''PERs'' = Some pers"
  shows "main_render transcript entities page =
     (page @ [Subheader ''Transcription:'', Write transcript, Subheader ''Extracted Entities:'']
        @ spec_category ''**Organizations (ORGs):**'' ''No organizations found.'' orgs
        @ spec_category ''**Locations (LOCs):**'' ''No locations found.'' locs
        @ spec_category ''**Persons (PERs):**'' ''No persons found.'' pers,
      None)"
  unfolding main_render_def Let_def bucket_get_def category_pass
  by (simp add: assms st_write_def st_subheader_def)

theorem main_render_categories_witness:
  "map_of [(''ORGs'', [''Acme'']), (''LOCs'', []), (''PERs'', [''Jane''])] ''ORGs'' = Some [''Acme''] \<and>
   map_of [(''ORGs'', [''Acme'']), (''LOCs'', []), (''PERs'', [''Jane''])] ''LOCs'' = Some [] \<and>
   map_of [(''ORGs'', [''Acme'']), (''LOCs'', []), (''PERs'', [''Jane''])] ''PERs'' = Some [''Jane''] \<and>
   main_render example_text [(''ORGs'', [''Acme'']), (''LOCs'', []), (''PERs'', [''Jane''])] [] =
     ([Subheader ''Transcription:'', Write example_text, Subheader ''Extracted Entities:'',
       Write ''**Organizations (ORGs):**'', Write ''- Acme'',
       Write ''No locations found.'',
       Write ''**Persons (PERs):**'', Write ''- Jane''],
      None)"
proof -
  let ?d = "[(''ORGs'', [''Acme'']), (''LOCs'', []), (''PERs'', [''Jane''])]"
  have h1: "map_of ?d ''ORGs'' = Some [''Acme'']" by simp
  have h2: "map_of ?d ''LOCs'' = Some []" by simp
  have h3: "map_of ?d ''PERs'' = Some [''Jane'']" by simp
  from h1 h2 h3
    main_render_categories [of ?d "[''Acme'']" "[]" "[''Jane'']" example_text "[]", OF h1 h2 h3]
  show ?thesis by (simp add: spec_category_def)
qed

section \<open>The transcription step\<close>

text \<open>
  Claim C9. When the speech model answers, the transcription step returns the text entry
  of the answer and nothing else, and leaves the file read to its end. The timestamps
  play no part: a model whose answer has the same text and other metadata, or none,
  gives the same return value.
\<close>

theorem transcribe_audio_text_only:
  assumes "whisper_model (fst (file_read uploaded_file)) True = Inr transcription"
    and "whisper_model' (fst (file_read uploaded_file)) True = Inr transcription'"
    and "result_text transcription' = result_text transcription"
  shows "transcribe_audio whisper_model uploaded_file =
           (Inr (result_text transcription), snd (file_read uploaded_file)) \<and>
         transcribe_audio whisper_model' uploaded_file =
           transcribe_audio whisper_model uploaded_file"
proof -
  obtain audio uploaded_file' where rd: "file_read uploaded_file = (audio, uploaded_file')"
    by (cases "file_read uploaded_file")
  with assms show ?thesis
    by (simp add: transcribe_audio_def)
qed

theorem transcribe_audio_text_only_witness:
  "example_whisper (fst (file_read example_file)) True =
     Inr \<lparr>result_text = example_text, chunks = [((0, Some 3), example_text)]\<rparr> \<and>
   example_whisper' (fst (file_read example_file)) True = Inr \<lparr>result_text = example_text\<rparr> \<and>
   transcribe_audio example_whisper example_file =
     (Inr example_text, \<lparr>content = [82, 73, 70, 70], position = 4\<rparr>) \<and>
   transcribe_audio example_whisper' example_file =
     transcribe_audio example_whisper example_file"
proof -
  let ?r = "\<lparr>result_text = example_text, chunks = [((0::real, Some (3::real)), example_text)]\<rparr>"
  let ?r' = "\<lparr>result_text = example_text\<rparr>"
  have h1: "example_whisper (fst (file_read example_file)) True = Inr ?r"
    by (simp add: example_whisper_def file_read_def example_file_def)
  have h2: "example_whisper' (fst (file_read example_file)) True = Inr ?r'"
    by (simp add: example_whisper'_def)
  have h3: "result_text ?r' = result_text ?r"
    by simp
  have rd: "snd (file_read example_file) = \<lparr>content = [82, 73, 70, 70], position = 4\<rparr>"
    by (simp add: file_read_def example_file_def)
  from h1 h2
    transcribe_audio_text_only [of example_whisper example_file ?r example_whisper' ?r',
      OF h1 h2 h3]
  show ?thesis by (simp add: rd)
qed

end
